theory Spec2Isabelle
  imports Main "HOL-Library.Sublist"
begin

section \<open>Data model\<close>

text \<open>
  Modelled from the spec: the classes \<open>Entity\<close> and \<open>EntityRef\<close> of
  \<open>port_ocean.core.models\<close> are imported by the applier but are not among the sources.
  Section 3 of the specification gives their fields: an entity has an identifier, a
  blueprint, relations, opaque properties and the flag \<open>usesSearchIdentifier\<close> (the
  attribute \<open>is_using_search_identifier\<close> read by \<open>upsert\<close>); a reference is the
  \<open>(identifier, blueprint)\<close> projection of an entity.
\<close>

record Entity =
  "identifier" :: string
  blueprint :: string
  relations :: "(string \<times> string list) list"
  properties :: "(string \<times> string) list"
  is_using_search_identifier :: bool

record EntityRef =
  ref_identifier :: string
  ref_blueprint :: string

text \<open>
  Modelled from the spec: \<open>EntityRef.from_entity\<close> is not among the sources; a reference
  is "derivable from any Entity" as its identity key.
\<close>

definition from_entity :: "Entity \<Rightarrow> EntityRef" where
  "from_entity entity =
     \<lparr>ref_identifier = identifier entity, ref_blueprint = blueprint entity\<rparr>"

text \<open>
  Modelled from the spec: \<open>is_same_entity\<close> of \<open>port_ocean.core.utils\<close> is not among
  the sources; equality for diff and guard purposes is identity-key equality only.
\<close>

definition is_same_entity :: "EntityRef \<Rightarrow> EntityRef \<Rightarrow> bool" where
  "is_same_entity first_entity second_entity \<longleftrightarrow>
     ref_identifier first_entity = ref_identifier second_entity \<and>
     ref_blueprint first_entity = ref_blueprint second_entity"

text \<open>
  The typed dictionaries \<open>EntityDiff\<close> and \<open>EntityRefDiff\<close> of \<open>ocean_types.py\<close>
  have the same two keys; one record, polymorphic in the item, stands for both.
\<close>

record 'a before_after =
  before :: "'a list"
  after :: "'a list"

type_synonym EntityDiff = "Entity before_after"
type_synonym EntityRefDiff = "EntityRef before_after"

text \<open>
  Modelled from the spec: the result type of \<open>get_port_diff\<close> and
  \<open>get_port_ref_diff\<close> is not among the sources; section 3 names its three buckets.
\<close>

record 'a port_diff =
  created :: "'a list"
  modified :: "'a list"
  deleted :: "'a list"

section \<open>Effects: exceptions, the remote store and the log of calls\<close>

datatype exn = Exception string

text \<open>
  Every awaited call into the remote store is recorded with the arguments the applier
  passes: the payload, the request options, the user agent type and \<open>should_raise\<close>.
\<close>

datatype ('ro, 'ua) remote_call =
    BatchUpsertEntities "Entity list" 'ro 'ua bool
  | UpsertEntity Entity 'ro 'ua bool
  | BatchDeleteEntities "EntityRef list" 'ro 'ua bool
  | DeleteEntity EntityRef 'ro 'ua bool
  | GetRelatedEntitiesRefs "EntityRef list"

text \<open>
  The remote store is an abstract world \<open>'w\<close>. An operation of a collaborator takes the
  world and returns the new world with either a raised exception (\<open>Inl\<close>) or a value.
\<close>

type_synonym ('a, 'w) remote_op = "'w \<Rightarrow> (exn + 'a) \<times> 'w"

record ('w, 'ro, 'ua) run_state =
  world :: 'w
  calls :: "('ro, 'ua) remote_call list"

type_synonym ('a, 'w, 'ro, 'ua) action =
  "('w, 'ro, 'ua) run_state \<Rightarrow> (exn + 'a) \<times> ('w, 'ro, 'ua) run_state"

definition call_remote ::
  "('ro, 'ua) remote_call \<Rightarrow> ('a, 'w) remote_op \<Rightarrow> ('a, 'w, 'ro, 'ua) action" where
  "call_remote c remote s =
     (case remote (world s) of
        (r, w') \<Rightarrow> (r, \<lparr>world = w', calls = calls s @ [c]\<rparr>))"

text \<open>
  \<open>event.port_app_config\<close>: the two policy flags and the request options, read-only
  during a call.
\<close>

record 'ro PortAppConfig =
  create_missing_related_entities :: bool
  delete_dependent_entities :: bool
  get_port_request_options :: 'ro

text \<open>
  \<open>self.context.port_client\<close>: the four operations the applier awaits. The client is
  not among the sources, so it is a parameter. \<open>upsert_entity\<close> returns the written
  entity or nothing; the results of the delete operations are discarded by the applier.
\<close>

record ('w, 'ro, 'ua) PortClient =
  batch_upsert_entities ::
    "Entity list \<Rightarrow> 'ro \<Rightarrow> 'ua \<Rightarrow> bool \<Rightarrow> (Entity list, 'w) remote_op"
  upsert_entity ::
    "Entity \<Rightarrow> 'ro \<Rightarrow> 'ua \<Rightarrow> bool \<Rightarrow> (Entity option, 'w) remote_op"
  batch_delete_entities ::
    "EntityRef list \<Rightarrow> 'ro \<Rightarrow> 'ua \<Rightarrow> bool \<Rightarrow> (unit, 'w) remote_op"
  delete_entity ::
    "EntityRef \<Rightarrow> 'ro \<Rightarrow> 'ua \<Rightarrow> bool \<Rightarrow> (unit, 'w) remote_op"

text \<open>
  The execution environment of the applier: the configuration, the client, and the
  helper functions the applier imports from modules that are not among the sources
  (the related-entities lookup, the two dependency orderers and the two diff functions).
  They are parameters. Following sections 4.2 and 7 of the specification the orderers and
  the diff functions are total and never raise. The lookup is given the client in the
  source and queries the remote store through it: here it is an operation on the world.
\<close>

record ('w, 'ro, 'ua) Env =
  port_app_config :: "'ro PortAppConfig"
  port_client :: "('w, 'ro, 'ua) PortClient"
  get_related_entities_refs :: "EntityRef list \<Rightarrow> (EntityRef list, 'w) remote_op"
  order_by_entities_dependencies :: "Entity list \<Rightarrow> Entity list"
  order_by_entities_ref_dependencies :: "EntityRef list \<Rightarrow> EntityRef list"
  get_port_diff :: "Entity list \<Rightarrow> Entity list \<Rightarrow> Entity port_diff"
  get_port_ref_diff :: "EntityRef list \<Rightarrow> EntityRef list \<Rightarrow> EntityRef port_diff"

section \<open>The state applier (applier.py)\<close>

text \<open>
  The methods of \<open>HttpEntitiesStateApplier\<close>, each an action on the state. An awaited
  call that raises ends the method with that exception. The \<open>logger\<close> lines have no
  part in what is called or returned and are left out.
\<close>

subsection \<open>delete\<close>

fun delete_each ::
  "('w, 'ro, 'ua) Env \<Rightarrow> EntityRef list \<Rightarrow> 'ua \<Rightarrow> (unit, 'w, 'ro, 'ua) action" where
  "delete_each E [] user_agent_type s = (Inr (), s)"
| "delete_each E (entity_ref # rest) user_agent_type s =
     (case call_remote
             (DeleteEntity entity_ref (get_port_request_options (port_app_config E))
                user_agent_type False)
             (delete_entity (port_client E) entity_ref
                (get_port_request_options (port_app_config E)) user_agent_type False) s of
        (Inl e, s') \<Rightarrow> (Inl e, s')
      | (Inr _, s') \<Rightarrow> delete_each E rest user_agent_type s')"

definition delete ::
  "('w, 'ro, 'ua) Env \<Rightarrow> EntityRef list \<Rightarrow> 'ua \<Rightarrow> (unit, 'w, 'ro, 'ua) action" where
  "delete E entities_refs user_agent_type s =
     (if delete_dependent_entities (port_app_config E) then
        call_remote
          (BatchDeleteEntities entities_refs (get_port_request_options (port_app_config E))
             user_agent_type False)
          (batch_delete_entities (port_client E) entities_refs
             (get_port_request_options (port_app_config E)) user_agent_type False) s
      else
        delete_each E (order_by_entities_ref_dependencies E entities_refs)
          user_agent_type s)"

subsection \<open>The deletion guard\<close>

text \<open>
  The loop of \<open>_safe_delete\<close> over the candidates, with the list
  \<open>allowed_entities_to_delete\<close> it appends to as the accumulator.
\<close>

fun allowed_entities_to_delete ::
  "bool \<Rightarrow> EntityRef list \<Rightarrow> EntityRef list \<Rightarrow> EntityRef list \<Rightarrow> EntityRef list
    \<Rightarrow> EntityRef list" where
  "allowed_entities_to_delete create_missing related_entities_refs entities_to_protect
     [] allowed = allowed"
| "allowed_entities_to_delete create_missing related_entities_refs entities_to_protect
     (entity_to_delete # rest) allowed =
     (let is_part_of_related =
            list_ex (\<lambda>entity. is_same_entity entity entity_to_delete) related_entities_refs;
          is_part_of_created =
            list_ex (\<lambda>entity. is_same_entity entity entity_to_delete) entities_to_protect
      in
        if is_part_of_related then
          (if create_missing then
             allowed_entities_to_delete create_missing related_entities_refs
               entities_to_protect rest allowed
           else
             allowed_entities_to_delete create_missing related_entities_refs
               entities_to_protect rest (allowed @ [entity_to_delete]))
        else if \<not> is_part_of_created then
          allowed_entities_to_delete create_missing related_entities_refs
            entities_to_protect rest (allowed @ [entity_to_delete])
        else
          allowed_entities_to_delete create_missing related_entities_refs
            entities_to_protect rest allowed)"

definition safe_delete ::
  "('w, 'ro, 'ua) Env \<Rightarrow> EntityRef list \<Rightarrow> EntityRef list \<Rightarrow> 'ua
    \<Rightarrow> (unit, 'w, 'ro, 'ua) action" where
  "safe_delete E entities_to_delete entities_to_protect user_agent_type s =
     (if entities_to_delete = [] then (Inr (), s)
      else
        (case call_remote (GetRelatedEntitiesRefs entities_to_protect)
                (get_related_entities_refs E entities_to_protect) s of
           (Inl e, s') \<Rightarrow> (Inl e, s')
         | (Inr related_entities_refs, s') \<Rightarrow>
             delete E
               (allowed_entities_to_delete
                  (create_missing_related_entities (port_app_config E))
                  related_entities_refs entities_to_protect entities_to_delete [])
               user_agent_type s'))"

subsection \<open>upsert\<close>

text \<open>
  The sequential branch of \<open>upsert\<close>: one awaited \<open>upsert_entity\<close> per entity, with
  \<open>modified_entities\<close> as the accumulator; a result that is nothing is not appended.
\<close>

fun upsert_each ::
  "('w, 'ro, 'ua) Env \<Rightarrow> Entity list \<Rightarrow> 'ua \<Rightarrow> Entity list
    \<Rightarrow> (Entity list, 'w, 'ro, 'ua) action" where
  "upsert_each E [] user_agent_type modified_entities s = (Inr modified_entities, s)"
| "upsert_each E (entity # rest) user_agent_type modified_entities s =
     (case call_remote
             (UpsertEntity entity (get_port_request_options (port_app_config E))
                user_agent_type False)
             (upsert_entity (port_client E) entity
                (get_port_request_options (port_app_config E)) user_agent_type False) s of
        (Inl e, s') \<Rightarrow> (Inl e, s')
      | (Inr upsertedEntity, s') \<Rightarrow>
          (case upsertedEntity of
             Some written \<Rightarrow>
               upsert_each E rest user_agent_type (modified_entities @ [written]) s'
           | None \<Rightarrow> upsert_each E rest user_agent_type modified_entities s'))"

definition upsert ::
  "('w, 'ro, 'ua) Env \<Rightarrow> Entity list \<Rightarrow> 'ua \<Rightarrow> (Entity list, 'w, 'ro, 'ua) action" where
  "upsert E entities user_agent_type s =
     (if create_missing_related_entities (port_app_config E) then
        call_remote
          (BatchUpsertEntities entities (get_port_request_options (port_app_config E))
             user_agent_type False)
          (batch_upsert_entities (port_client E) entities
             (get_port_request_options (port_app_config E)) user_agent_type False) s
      else
        (let entities_with_search_identifier =
               filter is_using_search_identifier entities;
             entities_without_search_identifier =
               filter (\<lambda>entity. \<not> is_using_search_identifier entity) entities;
             ordered_created_entities =
               rev (entities_with_search_identifier
                    @ order_by_entities_dependencies E entities_without_search_identifier)
         in upsert_each E ordered_created_entities user_agent_type [] s))"

subsection \<open>apply\_diff and delete\_diff\<close>

definition apply_diff ::
  "('w, 'ro, 'ua) Env \<Rightarrow> EntityDiff \<Rightarrow> 'ua \<Rightarrow> (unit, 'w, 'ro, 'ua) action" where
  "apply_diff E entities user_agent_type s =
     (let diff = get_port_diff E (before entities) (after entities);
          kept_entities = created diff @ modified diff
      in
        case upsert E kept_entities user_agent_type s of
          (Inl e, s') \<Rightarrow> (Inl e, s')
        | (Inr modified_entities, s') \<Rightarrow>
            (let modified_entities_refs = map from_entity modified_entities;
                 deleted_refs = map from_entity (deleted diff)
             in safe_delete E deleted_refs modified_entities_refs user_agent_type s'))"

definition delete_diff ::
  "('w, 'ro, 'ua) Env \<Rightarrow> EntityRefDiff \<Rightarrow> 'ua \<Rightarrow> (unit, 'w, 'ro, 'ua) action" where
  "delete_diff E entities user_agent_type s =
     (let diff = get_port_ref_diff E (before entities) (after entities)
      in
        if deleted diff = [] then (Inr (), s)
        else
          (let kept_entities = created diff @ modified diff
           in safe_delete E (deleted diff) kept_entities user_agent_type s))"

section \<open>The Kafka consumer (kafka\_consumer.py)\<close>

text \<open>
  The consumer of \<open>confluent_kafka\<close> and the callback \<open>msg_process\<close> are collaborators
  outside the sources. What they answer is given by a script with one entry per turn of
  the poll loop: what \<open>poll\<close> returns or raises, whether decoding the message body
  raises, whether \<open>msg_process\<close> raises, whether \<open>commit\<close> raises, and at which points
  of the turn a termination signal (SIGINT or SIGTERM) is delivered, which runs
  \<open>exit_gracefully\<close> there. The handlers are installed by \<open>__init__\<close>, so a signal can
  also be delivered while \<open>start\<close> subscribes, before it sets \<open>running\<close>.

  What is raised is either of class \<open>Exception\<close>, which the \<open>except Exception\<close> clauses
  of \<open>try_wrapper\<close> and \<open>start\<close> catch, or derives from \<open>BaseException\<close> only
  (\<open>SystemExit\<close>, \<open>asyncio.CancelledError\<close>), which they do not catch. The logging
  calls return normally, and so does \<open>close\<close> inside \<open>exit_gracefully\<close>.
\<close>

datatype raised = ExceptionClass string | BaseExceptionOnly string

fun caught_by_except_Exception :: "raised \<Rightarrow> bool" where
  "caught_by_except_Exception (ExceptionClass _) = True"
| "caught_by_except_Exception (BaseExceptionOnly _) = False"

record Message =
  msg_topic :: string
  msg_partition :: nat
  msg_offset :: nat
  msg_value :: string
  msg_error :: "string option"

text \<open>
  The trace: the calls on the consumer, the entry into \<open>_handle_message\<close> and the way
  it is left, the call of \<open>msg_process\<close>, the log lines that report a failure, and the
  assignment \<open>self.running = True\<close>.
\<close>

datatype consumer_event =
    Subscribe "string list"
  | SetRunning
  | Poll "raised + Message option"
  | HandleMessage Message
  | MsgProcess Message
  | MsgProcessFailureLogged Message
  | HandleMessageReturned Message
  | HandleMessageRaised Message raised
  | ProcessFailureLogged Message
  | Commit
  | ErrorLogged
  | ExitingGracefully
  | Close

datatype interrupt_point =
    BeforeSubscribe | AfterSubscribe
  | BeforePoll | AfterPoll | WhileProcessing | BeforeCommit | EndOfIteration

record iteration =
  signals :: "interrupt_point list"
  poll_outcome :: "raised + Message option"
  decode_outcome :: "raised option"
  msg_process_outcome :: "raised option"
  commit_outcome :: "raised option"

record consumer_state =
  running :: bool
  trace :: "consumer_event list"

definition emit :: "consumer_event \<Rightarrow> consumer_state \<Rightarrow> consumer_state" where
  "emit e s = s\<lparr>trace := trace s @ [e]\<rparr>"

text \<open>\<open>exit_gracefully\<close>: log, clear \<open>running\<close>, close the consumer.\<close>

definition exit_gracefully :: "consumer_state \<Rightarrow> consumer_state" where
  "exit_gracefully s = emit Close ((emit ExitingGracefully s)\<lparr>running := False\<rparr>)"

definition deliver ::
  "interrupt_point \<Rightarrow> interrupt_point list \<Rightarrow> consumer_state \<Rightarrow> consumer_state" where
  "deliver p delivered s = (if p \<in> set delivered then exit_gracefully s else s)"

text \<open>
  \<open>_handle_message\<close>: what decoding the body raises leaves the function. What
  \<open>msg_process\<close> raises is caught and logged by \<open>try_wrapper\<close> when it is of class
  \<open>Exception\<close>, and leaves the function otherwise.
\<close>

definition handle_message ::
  "iteration \<Rightarrow> Message \<Rightarrow> consumer_state \<Rightarrow> (raised + unit) \<times> consumer_state" where
  "handle_message it raw_msg s =
     (let s1 = deliver WhileProcessing (signals it) (emit (HandleMessage raw_msg) s)
      in case decode_outcome it of
           Some e \<Rightarrow> (Inl e, emit (HandleMessageRaised raw_msg e) s1)
         | None \<Rightarrow>
             (let s2 = emit (MsgProcess raw_msg) s1
              in case msg_process_outcome it of
                   None \<Rightarrow> (Inr (), emit (HandleMessageReturned raw_msg) s2)
                 | Some e \<Rightarrow>
                     if caught_by_except_Exception e then
                       (Inr (),
                        emit (HandleMessageReturned raw_msg)
                          (emit (MsgProcessFailureLogged raw_msg) s2))
                     else (Inl e, emit (HandleMessageRaised raw_msg e) s2)))"

text \<open>
  One turn of the \<open>while self.running\<close> loop of \<open>start\<close>. The result is \<open>None\<close> when
  the turn ends and the loop condition is tested again, and the exception when one leaves
  the loop. The inner \<open>except Exception\<close> logs what \<open>_handle_message\<close> raised when it
  is of class \<open>Exception\<close>; the \<open>finally\<close> clause commits in every case. What
  \<open>commit\<close> raises replaces an exception still pending. The outer \<open>except Exception\<close>
  logs what reaches it when it is of class \<open>Exception\<close>; anything else leaves the loop.
\<close>

definition poll_once ::
  "iteration \<Rightarrow> consumer_state \<Rightarrow> raised option \<times> consumer_state" where
  "poll_once it s =
     (let s1 = emit (Poll (poll_outcome it)) (deliver BeforePoll (signals it) s)
      in case poll_outcome it of
           Inl message_error \<Rightarrow>
             if caught_by_except_Exception message_error then
               (None, deliver EndOfIteration (signals it) (emit ErrorLogged s1))
             else (Some message_error, s1)
         | Inr None \<Rightarrow>
             (None, deliver EndOfIteration (signals it) (deliver AfterPoll (signals it) s1))
         | Inr (Some msg) \<Rightarrow>
             (let s2 = deliver AfterPoll (signals it) s1
              in if msg_error msg \<noteq> None then
                   (None, deliver EndOfIteration (signals it) (emit ErrorLogged s2))
                 else
                   (let (pending, s4) =
                          (case handle_message it msg s2 of
                             (Inr _, s3) \<Rightarrow> (None, s3)
                           | (Inl process_error, s3) \<Rightarrow>
                               if caught_by_except_Exception process_error then
                                 (None, emit (ProcessFailureLogged msg) s3)
                               else (Some process_error, s3));
                        s5 = emit Commit (deliver BeforeCommit (signals it) s4)
                    in case commit_outcome it of
                         Some message_error \<Rightarrow>
                           if caught_by_except_Exception message_error then
                             (None, deliver EndOfIteration (signals it) (emit ErrorLogged s5))
                           else (Some message_error, s5)
                       | None \<Rightarrow>
                           (case pending of
                              None \<Rightarrow> (None, deliver EndOfIteration (signals it) s5)
                            | Some process_error \<Rightarrow> (Some process_error, s5)))))"

text \<open>
  The loop runs for as long as \<open>running\<close> holds, so it need not stop. It is run against
  a finite script. The result is \<open>None\<close> while the loop is still running at the end of
  the script, \<open>Some (Inr ())\<close> when the loop condition has failed, and
  \<open>Some (Inl e)\<close> when the exception \<open>e\<close> has left the loop.
\<close>

fun poll_loop ::
  "iteration list \<Rightarrow> consumer_state \<Rightarrow> (raised + unit) option \<times> consumer_state" where
  "poll_loop [] s = ((if running s then None else Some (Inr ())), s)"
| "poll_loop (it # rest) s =
     (if running s then
        (case poll_once it s of
           (Some e, s') \<Rightarrow> (Some (Inl e), s')
         | (None, s') \<Rightarrow> poll_loop rest s')
      else (Some (Inr ()), s))"

text \<open>
  \<open>start\<close>: subscribe, set \<open>running\<close>, loop, and close the consumer in the \<open>finally\<close>
  clause; what that \<open>close\<close> raises is what leaves \<open>start\<close>. \<open>startup\<close> lists
  the points before \<open>running\<close> is set at which a signal is delivered. The result is
  \<open>None\<close> while the loop is still running at the end of the script.
\<close>

definition start ::
  "string option \<Rightarrow> interrupt_point list \<Rightarrow> raised option \<Rightarrow> iteration list
    \<Rightarrow> raised option \<Rightarrow> consumer_state \<Rightarrow> (raised + unit) option \<times> consumer_state" where
  "start org_id startup subscribe_outcome script close_outcome s =
     (let org = (case org_id of None \<Rightarrow> ''None'' | Some name \<Rightarrow> name);
          s1 = emit (Subscribe [org @ ''.runs'', org @ ''.change.log''])
                 (deliver BeforeSubscribe startup s)
      in case subscribe_outcome of
           Some e \<Rightarrow>
             (Some (Inl (case close_outcome of Some e' \<Rightarrow> e' | None \<Rightarrow> e)),
              emit Close s1)
         | None \<Rightarrow>
             (let s2 = emit SetRunning ((deliver AfterSubscribe startup s1)\<lparr>running := True\<rparr>)
              in case poll_loop script s2 of
                   (None, s3) \<Rightarrow> (None, s3)
                 | (Some r, s3) \<Rightarrow>
                     (Some (case close_outcome of Some e' \<Rightarrow> Inl e' | None \<Rightarrow> r),
                      emit Close s3)))"

text \<open>The consumer as \<open>__init__\<close> leaves it.\<close>

definition new_consumer :: consumer_state where
  "new_consumer = \<lparr>running = False, trace = []\<rparr>"

section \<open>Vocabulary of the properties\<close>

text \<open>The calls an action adds to the log when run from a state.\<close>

definition issued ::
  "('a, 'w, 'ro, 'ua) action \<Rightarrow> ('w, 'ro, 'ua) run_state \<Rightarrow> ('ro, 'ua) remote_call list" where
  "issued f s = drop (length (calls s)) (calls (snd (f s)))"

text \<open>
  The contract of the client for \<open>should_raise=False\<close> (section 6 of the specification,
  \<open>faultTolerant\<close>): the operation returns, it does not raise.
\<close>

definition fault_tolerant :: "('w, 'ro, 'ua) PortClient \<Rightarrow> bool" where
  "fault_tolerant client \<longleftrightarrow>
     (\<forall>entities ro ua w. \<not> isl (fst (batch_upsert_entities client entities ro ua False w))) \<and>
     (\<forall>entity ro ua w. \<not> isl (fst (upsert_entity client entity ro ua False w))) \<and>
     (\<forall>refs ro ua w. \<not> isl (fst (batch_delete_entities client refs ro ua False w))) \<and>
     (\<forall>ref ro ua w. \<not> isl (fst (delete_entity client ref ro ua False w)))"

text \<open>A logged call was made with \<open>should_raise=False\<close>; the lookup takes no such flag.\<close>

fun should_raise_unset :: "('ro, 'ua) remote_call \<Rightarrow> bool" where
  "should_raise_unset (BatchUpsertEntities _ _ _ should_raise) = (\<not> should_raise)"
| "should_raise_unset (UpsertEntity _ _ _ should_raise) = (\<not> should_raise)"
| "should_raise_unset (BatchDeleteEntities _ _ _ should_raise) = (\<not> should_raise)"
| "should_raise_unset (DeleteEntity _ _ _ should_raise) = (\<not> should_raise)"
| "should_raise_unset (GetRelatedEntitiesRefs _) = True"

definition logs_only ::
  "(('ro, 'ua) remote_call \<Rightarrow> bool) \<Rightarrow> ('a, 'w, 'ro, 'ua) action \<Rightarrow> bool" where
  "logs_only P f \<longleftrightarrow>
     (\<forall>s. \<exists>new. calls (snd (f s)) = calls s @ new \<and> list_all P new)"

text \<open>The decision the loop of the guard takes for one candidate.\<close>

definition deletable ::
  "bool \<Rightarrow> EntityRef list \<Rightarrow> EntityRef list \<Rightarrow> EntityRef \<Rightarrow> bool" where
  "deletable create_missing related_entities_refs entities_to_protect entity_to_delete =
     (if list_ex (\<lambda>entity. is_same_entity entity entity_to_delete) related_entities_refs
      then \<not> create_missing
      else \<not> list_ex (\<lambda>entity. is_same_entity entity entity_to_delete) entities_to_protect)"

text \<open>The entities of the per-entity write calls of a log, in the order of the calls.\<close>

fun upserted_entities :: "('ro, 'ua) remote_call list \<Rightarrow> Entity list" where
  "upserted_entities [] = []"
| "upserted_entities (UpsertEntity entity _ _ _ # cs) = entity # upserted_entities cs"
| "upserted_entities (_ # cs) = upserted_entities cs"

text \<open>
  A sequence of written entities has those flagged \<open>is_using_search_identifier\<close> ahead
  of all the others: it is its flagged part followed by its unflagged part.
\<close>

definition search_identifier_first :: "Entity list \<Rightarrow> bool" where
  "search_identifier_first written \<longleftrightarrow>
     written = filter is_using_search_identifier written
               @ filter (\<lambda>entity. \<not> is_using_search_identifier entity) written"









section \<open>A concrete environment\<close>

text \<open>
  Modelled from the spec: \<open>get_port_diff\<close> and \<open>get_port_ref_diff\<close> are not among the
  sources. Section 4.1: an item of \<open>after\<close> is created when its identity key is absent
  from \<open>before\<close> and modified when it is present; an item of \<open>before\<close> is deleted when
  its key is absent from \<open>after\<close>; each bucket keeps the order of its source. It is used
  in the concrete environment only.
\<close>

definition diff_by_identity ::
  "('a \<Rightarrow> string \<times> string) \<Rightarrow> 'a list \<Rightarrow> 'a list \<Rightarrow> 'a port_diff" where
  "diff_by_identity key before_items after_items =
     \<lparr>created = filter (\<lambda>x. key x \<notin> set (map key before_items)) after_items,
      modified = filter (\<lambda>x. key x \<in> set (map key before_items)) after_items,
      deleted = filter (\<lambda>x. key x \<notin> set (map key after_items)) before_items\<rparr>"

definition mk_entity :: "string \<Rightarrow> bool \<Rightarrow> Entity" where
  "mk_entity name search =
     \<lparr>identifier = name, blueprint = ''service'', relations = [], properties = [],
      is_using_search_identifier = search\<rparr>"

definition mk_ref :: "string \<Rightarrow> EntityRef" where
  "mk_ref name = \<lparr>ref_identifier = name, ref_blueprint = ''service''\<rparr>"

text \<open>
  A client whose world counts the calls. Writing the entity named \<open>bad\<close> fails: the
  failure is raised with \<open>should_raise\<close> and is an absent result without it.
\<close>

definition sample_client :: "(nat, unit, unit) PortClient" where
  "sample_client =
     \<lparr>batch_upsert_entities = (\<lambda>entities ro ua should_raise w.
        if should_raise \<and> list_ex (\<lambda>e. identifier e = ''bad'') entities
        then (Inl (Exception ''upsert failed''), Suc w)
        else (Inr (filter (\<lambda>e. identifier e \<noteq> ''bad'') entities), Suc w)),
      upsert_entity = (\<lambda>entity ro ua should_raise w.
        if identifier entity = ''bad''
        then (if should_raise then (Inl (Exception ''upsert failed''), Suc w)
              else (Inr None, Suc w))
        else (Inr (Some entity), Suc w)),
      batch_delete_entities = (\<lambda>refs ro ua should_raise w. (Inr (), Suc w)),
      delete_entity = (\<lambda>ref ro ua should_raise w. (Inr (), Suc w))\<rparr>"

definition lookup_returning ::
  "EntityRef list \<Rightarrow> EntityRef list \<Rightarrow> (EntityRef list, nat) remote_op" where
  "lookup_returning related protect w = (Inr related, w)"

definition lookup_raising :: "EntityRef list \<Rightarrow> (EntityRef list, nat) remote_op" where
  "lookup_raising protect w = (Inl (Exception ''lookup failed''), w)"

text \<open>The orderers of the concrete environment keep the input order.\<close>

definition sample_env ::
  "bool \<Rightarrow> bool \<Rightarrow> (EntityRef list \<Rightarrow> (EntityRef list, nat) remote_op)
    \<Rightarrow> (nat, unit, unit) Env" where
  "sample_env create_missing delete_dependent lookup =
     \<lparr>port_app_config =
        \<lparr>create_missing_related_entities = create_missing,
         delete_dependent_entities = delete_dependent,
         get_port_request_options = ()\<rparr>,
      port_client = sample_client,
      get_related_entities_refs = lookup,
      order_by_entities_dependencies = (\<lambda>entities. entities),
      order_by_entities_ref_dependencies = (\<lambda>refs. refs),
      get_port_diff = diff_by_identity (\<lambda>e. (identifier e, blueprint e)),
      get_port_ref_diff = diff_by_identity (\<lambda>r. (ref_identifier r, ref_blueprint r))\<rparr>"

text \<open>
  A client that resolves an entity with a search identifier to the stored entity \<open>X\<close>
  and returns that entity as the one written, and an entity \<open>Y\<close> that depends on
  \<open>X\<close>; the lookup of the environment answers \<open>X\<close>.
\<close>

definition resolving_client :: "(nat, unit, unit) PortClient" where
  "resolving_client =
     sample_client\<lparr>upsert_entity := (\<lambda>entity ro ua should_raise w.
        if is_using_search_identifier entity
        then (Inr (Some (mk_entity ''X'' False)), Suc w)
        else (Inr (Some entity), Suc w))\<rparr>"

definition resolving_env :: "(nat, unit, unit) Env" where
  "resolving_env =
     (sample_env False False (lookup_returning [mk_ref ''X'']))
       \<lparr>port_client := resolving_client\<rparr>"

definition dependent_on_x :: Entity where
  "dependent_on_x = (mk_entity ''Y'' False)\<lparr>relations := [(''depends_on'', [''X''])]\<rparr>"

definition start_state :: "(nat, unit, unit) run_state" where
  "start_state = \<lparr>world = 0, calls = []\<rparr>"




text \<open>One turn in which \<open>poll\<close> returns no message.\<close>

definition idle_script :: "iteration list" where
  "idle_script =
     [\<lparr>signals = [], poll_outcome = Inr None, decode_outcome = None,
       msg_process_outcome = None, commit_outcome = None\<rparr>]"

section \<open>Properties\<close>

subsection \<open>The log of calls\<close>

lemma issuedI: "calls (snd (f s)) = calls s @ new \<Longrightarrow> issued f s = new"
  by (simp add: issued_def)

lemma call_remote_eq:
  "remote (world s) = (r, w') \<Longrightarrow>
   call_remote c remote s = (r, \<lparr>world = w', calls = calls s @ [c]\<rparr>)"
  by (simp add: call_remote_def)

lemma call_remote_calls: "calls (snd (call_remote c remote s)) = calls s @ [c]"
  by (simp add: call_remote_def split: prod.splits)

lemma call_remote_fst: "fst (call_remote c remote s) = fst (remote (world s))"
  by (simp add: call_remote_def split: prod.splits)

lemma call_remote_world: "world (snd (call_remote c remote s)) = snd (remote (world s))"
  by (simp add: call_remote_def split: prod.splits)

lemma not_isl_fstD: "\<not> isl (fst p) \<Longrightarrow> \<exists>v w. p = (Inr v, w)"
  by (cases p; cases "fst p") auto

lemma logs_only_return: "logs_only P (\<lambda>s. (r, s))"
  by (simp add: logs_only_def)

lemma logs_only_call: "P c \<Longrightarrow> logs_only P (call_remote c remote)"
  by (simp add: logs_only_def call_remote_calls)

lemma logs_only_bind:
  assumes f: "logs_only P f" and g: "\<And>v. logs_only P (g v)"
  shows "logs_only P (\<lambda>s. case f s of (Inl e, s') \<Rightarrow> (Inl e, s') | (Inr v, s') \<Rightarrow> g v s')"
  unfolding logs_only_def
proof
  fix s
  obtain r s1 where fs: "f s = (r, s1)" by force
  from f obtain n1 where n1: "calls s1 = calls s @ n1" "list_all P n1"
    unfolding logs_only_def using fs by (metis snd_conv)
  show "\<exists>new. calls (snd (case f s of (Inl e, s') \<Rightarrow> (Inl e, s') | (Inr v, s') \<Rightarrow> g v s'))
           = calls s @ new \<and> list_all P new"
  proof (cases r)
    case (Inl e)
    with fs n1 show ?thesis by simp
  next
    case (Inr v)
    from g[of v] obtain n2 where "calls (snd (g v s1)) = calls s1 @ n2" "list_all P n2"
      unfolding logs_only_def by blast
    with Inr fs n1 show ?thesis by simp
  qed
qed

lemma logs_only_issued: "logs_only P f \<Longrightarrow> list_all P (issued f s)"
  unfolding logs_only_def issued_def by (metis append_eq_conv_conj)

lemma logs_only_calls: "logs_only P f \<Longrightarrow> calls (snd (f s)) = calls s @ issued f s"
  unfolding logs_only_def issued_def by (metis append_eq_conv_conj)

subsection \<open>delete and upsert\<close>

lemma delete_each_run:
  assumes "fault_tolerant (port_client E)"
  shows "fst (delete_each E refs ua s) = Inr () \<and>
     calls (snd (delete_each E refs ua s)) =
       calls s @ map (\<lambda>r. DeleteEntity r (get_port_request_options (port_app_config E)) ua False) refs"
proof (induction refs arbitrary: s)
  case Nil
  show ?case by simp
next
  case (Cons r rs)
  let ?c = "DeleteEntity r (get_port_request_options (port_app_config E)) ua False"
  let ?op = "delete_entity (port_client E) r (get_port_request_options (port_app_config E)) ua False"
  from assms have "\<not> isl (fst (?op (world s)))"
    by (simp add: fault_tolerant_def)
  then obtain u w' where "?op (world s) = (Inr u, w')"
    using not_isl_fstD by blast
  then have cr: "call_remote ?c ?op s = (Inr u, \<lparr>world = w', calls = calls s @ [?c]\<rparr>)"
    by (rule call_remote_eq)
  show ?case
    using Cons.IH[of "\<lparr>world = w', calls = calls s @ [?c]\<rparr>"] cr by simp
qed

lemma upsert_each_run:
  assumes "fault_tolerant (port_client E)"
  shows "\<not> isl (fst (upsert_each E entities ua acc s)) \<and>
     calls (snd (upsert_each E entities ua acc s)) =
       calls s @ map (\<lambda>e. UpsertEntity e (get_port_request_options (port_app_config E)) ua False) entities"
proof (induction entities arbitrary: s acc)
  case Nil
  show ?case by simp
next
  case (Cons e es)
  let ?c = "UpsertEntity e (get_port_request_options (port_app_config E)) ua False"
  let ?op = "upsert_entity (port_client E) e (get_port_request_options (port_app_config E)) ua False"
  from assms have "\<not> isl (fst (?op (world s)))"
    by (simp add: fault_tolerant_def)
  then obtain u w' where "?op (world s) = (Inr u, w')"
    using not_isl_fstD by blast
  then have cr: "call_remote ?c ?op s = (Inr u, \<lparr>world = w', calls = calls s @ [?c]\<rparr>)"
    by (rule call_remote_eq)
  show ?case
  proof (cases u)
    case None
    with Cons.IH[of acc "\<lparr>world = w', calls = calls s @ [?c]\<rparr>"] cr show ?thesis by simp
  next
    case (Some written)
    with Cons.IH[of "acc @ [written]" "\<lparr>world = w', calls = calls s @ [?c]\<rparr>"] cr
    show ?thesis by simp
  qed
qed

lemma upsert_each_results:
  assumes "fst (upsert_each E entities ua acc s) = Inr result"
  shows "\<exists>written. result = acc @ written \<and>
     (\<forall>u\<in>set written. \<exists>e\<in>set entities. \<exists>w.
        fst (upsert_entity (port_client E) e
               (get_port_request_options (port_app_config E)) ua False w) = Inr (Some u))"
  using assms
proof (induction entities arbitrary: acc s)
  case Nil
  then show ?case by simp
next
  case (Cons e es)
  let ?c = "UpsertEntity e (get_port_request_options (port_app_config E)) ua False"
  let ?op = "upsert_entity (port_client E) e (get_port_request_options (port_app_config E)) ua False"
  obtain r w' where op: "?op (world s) = (r, w')" by force
  let ?s' = "\<lparr>world = w', calls = calls s @ [?c]\<rparr>"
  have cr: "call_remote ?c ?op s = (r, ?s')" using op by (rule call_remote_eq)
  show ?case
  proof (cases r)
    case (Inl x)
    with Cons.prems cr show ?thesis by simp
  next
    case (Inr v)
    show ?thesis
    proof (cases v)
      case None
      with Inr cr Cons.prems have "fst (upsert_each E es ua acc ?s') = Inr result" by simp
      from Cons.IH[OF this] show ?thesis by auto
    next
      case (Some u)
      with Inr cr Cons.prems have "fst (upsert_each E es ua (acc @ [u]) ?s') = Inr result"
        by simp
      from Cons.IH[OF this] obtain written where
        w: "result = (acc @ [u]) @ written"
          "\<forall>u\<in>set written. \<exists>e\<in>set es. \<exists>w.
             fst (upsert_entity (port_client E) e
               (get_port_request_options (port_app_config E)) ua False w) = Inr (Some u)"
        by blast
      have "fst (?op (world s)) = Inr (Some u)" using op Inr Some by simp
      with w show ?thesis
        by (intro exI[of _ "u # written"]) auto
    qed
  qed
qed

lemma upsert_sequential_results:
  assumes "\<not> create_missing_related_entities (port_app_config E)"
    and "fst (upsert E entities ua s) = Inr result"
  shows "\<forall>u\<in>set result. \<exists>e w.
        fst (upsert_entity (port_client E) e
               (get_port_request_options (port_app_config E)) ua False w) = Inr (Some u)"
proof -
  from assms have "fst (upsert_each E
        (rev (filter is_using_search_identifier entities
              @ order_by_entities_dependencies E
                  (filter (\<lambda>entity. \<not> is_using_search_identifier entity) entities))) ua [] s)
      = Inr result"
    by (simp add: upsert_def Let_def)
  from upsert_each_results[OF this] obtain written where
    "result = [] @ written"
    "\<forall>u\<in>set written. \<exists>e\<in>set (rev (filter is_using_search_identifier entities
              @ order_by_entities_dependencies E
                  (filter (\<lambda>entity. \<not> is_using_search_identifier entity) entities))). \<exists>w.
        fst (upsert_entity (port_client E) e
               (get_port_request_options (port_app_config E)) ua False w) = Inr (Some u)"
    by blast
  then have "result = written" by simp
  with \<open>\<forall>u\<in>set written. _\<close> show ?thesis
    unfolding Bex_def Ball_def by blast
qed

lemma delete_returns:
  assumes "fault_tolerant (port_client E)"
  shows "fst (delete E refs ua s) = Inr ()"
proof (cases "delete_dependent_entities (port_app_config E)")
  case True
  from assms have "\<not> isl (fst (batch_delete_entities (port_client E) refs
      (get_port_request_options (port_app_config E)) ua False (world s)))"
    by (simp add: fault_tolerant_def)
  with True show ?thesis
    by (cases "fst (batch_delete_entities (port_client E) refs
      (get_port_request_options (port_app_config E)) ua False (world s))")
      (simp_all add: delete_def call_remote_fst)
next
  case False
  then show ?thesis
    using delete_each_run[OF assms] by (simp add: delete_def)
qed

lemma upsert_returns:
  assumes "fault_tolerant (port_client E)"
  shows "\<not> isl (fst (upsert E entities ua s))"
proof (cases "create_missing_related_entities (port_app_config E)")
  case True
  with assms show ?thesis
    by (simp add: upsert_def call_remote_fst fault_tolerant_def)
next
  case False
  then show ?thesis
    using upsert_each_run[OF assms] by (simp add: upsert_def Let_def)
qed

subsection \<open>Every logged call has should\_raise unset\<close>

lemma delete_each_logs: "logs_only should_raise_unset (delete_each E refs ua)"
proof (induction refs)
  case Nil
  have "delete_each E [] ua = (\<lambda>s. (Inr (), s))" by (rule ext) simp
  then show ?case by (simp add: logs_only_return)
next
  case (Cons r rs)
  have "delete_each E (r # rs) ua =
      (\<lambda>s. case call_remote
             (DeleteEntity r (get_port_request_options (port_app_config E)) ua False)
             (delete_entity (port_client E) r
                (get_port_request_options (port_app_config E)) ua False) s of
          (Inl e, s') \<Rightarrow> (Inl e, s')
        | (Inr v, s') \<Rightarrow> delete_each E rs ua s')"
    by (rule ext) simp
  moreover have "logs_only should_raise_unset \<dots>"
    by (rule logs_only_bind) (simp_all add: logs_only_call Cons)
  ultimately show ?case by simp
qed

lemma delete_logs: "logs_only should_raise_unset (delete E refs ua)"
proof (cases "delete_dependent_entities (port_app_config E)")
  case True
  then have "delete E refs ua =
      call_remote
        (BatchDeleteEntities refs (get_port_request_options (port_app_config E)) ua False)
        (batch_delete_entities (port_client E) refs
           (get_port_request_options (port_app_config E)) ua False)"
    by (intro ext) (simp add: delete_def)
  then show ?thesis by (simp add: logs_only_call)
next
  case False
  then have "delete E refs ua =
      delete_each E (order_by_entities_ref_dependencies E refs) ua"
    by (intro ext) (simp add: delete_def)
  then show ?thesis by (simp add: delete_each_logs)
qed

lemma upsert_each_logs: "logs_only should_raise_unset (upsert_each E entities ua acc)"
proof (induction entities arbitrary: acc)
  case Nil
  have "upsert_each E [] ua acc = (\<lambda>s. (Inr acc, s))" by (rule ext) simp
  then show ?case by (simp add: logs_only_return)
next
  case (Cons e es)
  have "upsert_each E (e # es) ua acc =
      (\<lambda>s. case call_remote
             (UpsertEntity e (get_port_request_options (port_app_config E)) ua False)
             (upsert_entity (port_client E) e
                (get_port_request_options (port_app_config E)) ua False) s of
          (Inl x, s') \<Rightarrow> (Inl x, s')
        | (Inr v, s') \<Rightarrow>
            upsert_each E es ua (case v of Some written \<Rightarrow> acc @ [written] | None \<Rightarrow> acc) s')"
    by (rule ext) (simp split: prod.splits sum.splits option.splits)
  moreover have "logs_only should_raise_unset \<dots>"
    by (rule logs_only_bind) (simp_all add: logs_only_call Cons)
  ultimately show ?case by simp
qed

lemma upsert_logs: "logs_only should_raise_unset (upsert E entities ua)"
proof (cases "create_missing_related_entities (port_app_config E)")
  case True
  then have "upsert E entities ua =
      call_remote
        (BatchUpsertEntities entities (get_port_request_options (port_app_config E)) ua False)
        (batch_upsert_entities (port_client E) entities
           (get_port_request_options (port_app_config E)) ua False)"
    by (intro ext) (simp add: upsert_def)
  then show ?thesis by (simp add: logs_only_call)
next
  case False
  then have "upsert E entities ua =
      upsert_each E
        (rev (filter is_using_search_identifier entities
              @ order_by_entities_dependencies E
                  (filter (\<lambda>entity. \<not> is_using_search_identifier entity) entities))) ua []"
    by (intro ext) (simp add: upsert_def Let_def)
  then show ?thesis by (simp add: upsert_each_logs)
qed

lemma safe_delete_logs: "logs_only should_raise_unset (safe_delete E candidates protect ua)"
proof (cases "candidates = []")
  case True
  then have "safe_delete E candidates protect ua = (\<lambda>s. (Inr (), s))"
    by (intro ext) (simp add: safe_delete_def)
  then show ?thesis by (simp add: logs_only_return)
next
  case False
  then have "safe_delete E candidates protect ua =
      (\<lambda>s. case call_remote (GetRelatedEntitiesRefs protect)
                  (get_related_entities_refs E protect) s of
          (Inl e, s') \<Rightarrow> (Inl e, s')
        | (Inr related, s') \<Rightarrow>
            delete E
              (allowed_entities_to_delete
                 (create_missing_related_entities (port_app_config E))
                 related protect candidates []) ua s')"
    by (intro ext) (simp add: safe_delete_def)
  moreover have "logs_only should_raise_unset \<dots>"
    by (rule logs_only_bind) (simp_all add: logs_only_call delete_logs)
  ultimately show ?thesis by simp
qed

lemma apply_diff_unfold:
  "apply_diff E entities ua =
      (\<lambda>s. case upsert E
                  (created (get_port_diff E (before entities) (after entities))
                   @ modified (get_port_diff E (before entities) (after entities))) ua s of
          (Inl e, s') \<Rightarrow> (Inl e, s')
        | (Inr written, s') \<Rightarrow>
            safe_delete E
              (map from_entity (deleted (get_port_diff E (before entities) (after entities))))
              (map from_entity written) ua s')"
  by (intro ext) (simp add: apply_diff_def Let_def split: prod.splits sum.splits)

lemma apply_diff_logs: "logs_only should_raise_unset (apply_diff E entities ua)"
proof -
  have "logs_only should_raise_unset
      (\<lambda>s. case upsert E
                  (created (get_port_diff E (before entities) (after entities))
                   @ modified (get_port_diff E (before entities) (after entities))) ua s of
          (Inl e, s') \<Rightarrow> (Inl e, s')
        | (Inr written, s') \<Rightarrow>
            safe_delete E
              (map from_entity (deleted (get_port_diff E (before entities) (after entities))))
              (map from_entity written) ua s')"
    by (rule logs_only_bind) (simp_all add: upsert_logs safe_delete_logs)
  then show ?thesis by (simp add: apply_diff_unfold)
qed

lemma delete_diff_logs: "logs_only should_raise_unset (delete_diff E entities ua)"
proof -
  let ?d = "get_port_ref_diff E (before entities) (after entities)"
  show ?thesis
  proof (cases "deleted ?d = []")
    case True
    then have "delete_diff E entities ua = (\<lambda>s. (Inr (), s))"
      by (intro ext) (simp add: delete_diff_def Let_def)
    then show ?thesis by (simp add: logs_only_return)
  next
    case False
    then have "delete_diff E entities ua =
        safe_delete E (deleted ?d) (created ?d @ modified ?d) ua"
      by (intro ext) (simp add: delete_diff_def Let_def)
    then show ?thesis by (simp add: safe_delete_logs)
  qed
qed

subsection \<open>Exceptions that leave the applier\<close>

lemma safe_delete_raises_only_lookup:
  assumes "fault_tolerant (port_client E)"
    and "fst (safe_delete E candidates protect ua s) = Inl x"
  shows "fst (get_related_entities_refs E protect (world s)) = Inl x"
proof (cases "candidates = []")
  case True
  with assms(2) show ?thesis by (simp add: safe_delete_def)
next
  case False
  obtain r w' where lk: "get_related_entities_refs E protect (world s) = (r, w')" by force
  show ?thesis
  proof (cases r)
    case (Inl e)
    with False lk assms(2) show ?thesis
      by (simp add: safe_delete_def call_remote_def)
  next
    case (Inr related)
    with False lk assms(2) delete_returns[OF assms(1)] show ?thesis
      by (simp add: safe_delete_def call_remote_def)
  qed
qed

lemma apply_diff_raises_only_lookup:
  assumes "fault_tolerant (port_client E)"
    and "fst (apply_diff E entities ua s) = Inl x"
  shows "\<exists>protect w. fst (get_related_entities_refs E protect w) = Inl x"
proof -
  let ?d = "get_port_diff E (before entities) (after entities)"
  obtain r s1 where up: "upsert E (created ?d @ modified ?d) ua s = (r, s1)" by force
  from upsert_returns[OF assms(1), of "created ?d @ modified ?d" ua s] up
  obtain written where r: "r = Inr written" by (cases r) auto
  from assms(2) up r
  have "fst (safe_delete E (map from_entity (deleted ?d)) (map from_entity written) ua s1) = Inl x"
    by (simp add: apply_diff_def Let_def)
  from safe_delete_raises_only_lookup[OF assms(1) this] show ?thesis by blast
qed

lemma delete_diff_raises_only_lookup:
  assumes "fault_tolerant (port_client E)"
    and "fst (delete_diff E entities ua s) = Inl x"
  shows "\<exists>protect w. fst (get_related_entities_refs E protect w) = Inl x"
proof -
  let ?d = "get_port_ref_diff E (before entities) (after entities)"
  from assms(2) have ne: "deleted ?d \<noteq> []"
    by (auto simp add: delete_diff_def Let_def)
  with assms(2)
  have "fst (safe_delete E (deleted ?d) (created ?d @ modified ?d) ua s) = Inl x"
    by (simp add: delete_diff_def Let_def)
  from safe_delete_raises_only_lookup[OF assms(1) this] show ?thesis by blast
qed

subsection \<open>The deletion guard\<close>

lemma allowed_entities_to_delete_filter:
  "allowed_entities_to_delete cm related protect candidates allowed =
     allowed @ filter (deletable cm related protect) candidates"
  by (induction candidates arbitrary: allowed) (auto simp add: deletable_def Let_def)

lemma guard_decision:
  "e \<in> set (allowed_entities_to_delete cm related protect candidates []) \<longleftrightarrow>
     e \<in> set candidates \<and> deletable cm related protect e"
  by (auto simp add: allowed_entities_to_delete_filter)

lemma deletable_table:
  "deletable cm related protect e \<longleftrightarrow>
     (list_ex (\<lambda>entity. is_same_entity entity e) related \<and> \<not> cm) \<or>
     (\<not> list_ex (\<lambda>entity. is_same_entity entity e) related \<and>
      \<not> list_ex (\<lambda>entity. is_same_entity entity e) protect)"
  by (simp add: deletable_def)

lemma safe_delete_passes_allowed:
  assumes "candidates \<noteq> []"
    and "get_related_entities_refs E protect (world s) = (Inr related, w')"
  shows "safe_delete E candidates protect ua s =
     delete E
       (filter (deletable (create_missing_related_entities (port_app_config E)) related protect)
          candidates)
       ua \<lparr>world = w', calls = calls s @ [GetRelatedEntitiesRefs protect]\<rparr>"
  using assms
  by (simp add: safe_delete_def call_remote_def allowed_entities_to_delete_filter)

subsection \<open>The concrete environment\<close>

lemma sample_client_fault_tolerant: "fault_tolerant sample_client"
  by (simp add: fault_tolerant_def sample_client_def)

lemmas sample_defs =
  sample_env_def sample_client_def lookup_returning_def lookup_raising_def start_state_def
  mk_entity_def mk_ref_def diff_by_identity_def

subsection \<open>The consumer\<close>





















subsection \<open>Claims about the deletion guard\<close>

text \<open>
  C1: the claim is that the guard lets a candidate through exactly when it is not in the
  protect list and is either unrelated to it or the policy
  \<open>create_missing_related_entities\<close> is off, so that a protected candidate is never
  deleted. The lemmas \<open>guard_decision\<close> and \<open>deletable_table\<close> give what the loop
  decides: a related candidate is let through when the policy is off, whether it is
  protected or not. The two runs below are at the row of the table where the two differ,
  with the policy off. In the first the guard is given \<open>X\<close> as candidate and as
  protected, the lookup answers \<open>X\<close>, and \<open>X\<close> is deleted. In the second
  \<open>apply_diff\<close> gets \<open>before = [X]\<close> and \<open>after = [S, Y]\<close>; the client resolves the
  search identifier of \<open>S\<close> to \<open>X\<close>, so \<open>X\<close> is among the entities written, and
  \<open>Y\<close> depends on \<open>X\<close>; \<open>X\<close> is deleted after it has been written.
\<close>

theorem protected_related_candidate_is_deleted:
  "issued (safe_delete (sample_env False False (lookup_returning [mk_ref ''X'']))
             [mk_ref ''X''] [mk_ref ''X''] ()) start_state =
     [GetRelatedEntitiesRefs [mk_ref ''X''], DeleteEntity (mk_ref ''X'') () () False] \<and>
   issued (apply_diff resolving_env
             \<lparr>before = [mk_entity ''X'' False],
              after = [mk_entity ''S'' True, dependent_on_x]\<rparr> ()) start_state =
     [UpsertEntity dependent_on_x () () False,
      UpsertEntity (mk_entity ''S'' True) () () False,
      GetRelatedEntitiesRefs [mk_ref ''Y'', mk_ref ''X''],
      DeleteEntity (mk_ref ''X'') () () False]"
proof -
  have guard: "issued (safe_delete (sample_env False False (lookup_returning [mk_ref ''X'']))
             [mk_ref ''X''] [mk_ref ''X''] ()) start_state =
     [GetRelatedEntitiesRefs [mk_ref ''X''], DeleteEntity (mk_ref ''X'') () () False]"
    by (simp add: sample_defs safe_delete_def delete_def issued_def call_remote_def Let_def
          is_same_entity_def)
  have run: "issued (apply_diff resolving_env
             \<lparr>before = [mk_entity ''X'' False],
              after = [mk_entity ''S'' True, dependent_on_x]\<rparr> ()) start_state =
     [UpsertEntity dependent_on_x () () False,
      UpsertEntity (mk_entity ''S'' True) () () False,
      GetRelatedEntitiesRefs [mk_ref ''Y'', mk_ref ''X''],
      DeleteEntity (mk_ref ''X'') () () False]"
    by (simp add: resolving_env_def resolving_client_def dependent_on_x_def sample_defs
          apply_diff_def upsert_def safe_delete_def delete_def issued_def call_remote_def
          Let_def is_same_entity_def from_entity_def)
  from guard run show ?thesis by (rule conjI)
qed

text \<open>
  C8: the list the guard hands to \<open>delete\<close> is a subsequence of the candidates: the
  candidates let through, in the order they had among the candidates.
\<close>

theorem guard_output_subsequence:
  "subseq (allowed_entities_to_delete create_missing related_entities_refs
             entities_to_protect entities_to_delete [])
     entities_to_delete"
  by (simp add: allowed_entities_to_delete_filter)

subsection \<open>Claims about upsert\<close>

text \<open>
  C2, as amended: on the sequential path of \<open>upsert\<close> (the policy
  \<open>create_missing_related_entities\<close> off) and with a client that honours
  \<open>should_raise=False\<close>, the per-entity write calls are, in this order, one for each
  entity of the dependency order of the entities without a search identifier, reversed,
  and then one for each entity with a search identifier, in the reverse of the input
  order. The entities with a search identifier are written after the others, not ahead
  of them.
\<close>

theorem upsert_sequential_order:
  assumes "fault_tolerant (port_client E)"
    and "\<not> create_missing_related_entities (port_app_config E)"
  shows "issued (upsert E entities ua) s =
     map (\<lambda>e. UpsertEntity e (get_port_request_options (port_app_config E)) ua False)
       (rev (order_by_entities_dependencies E
               (filter (\<lambda>entity. \<not> is_using_search_identifier entity) entities)))
     @ map (\<lambda>e. UpsertEntity e (get_port_request_options (port_app_config E)) ua False)
         (rev (filter is_using_search_identifier entities))"
  using assms(2) upsert_each_run[OF assms(1), of
      "rev (filter is_using_search_identifier entities
            @ order_by_entities_dependencies E
                (filter (\<lambda>entity. \<not> is_using_search_identifier entity) entities))" ua "[]" s]
  by (simp add: upsert_def issuedI Let_def)

theorem upsert_sequential_order_witness:
  "fault_tolerant (port_client (sample_env False False (lookup_returning []))) \<and>
   \<not> create_missing_related_entities
       (port_app_config (sample_env False False (lookup_returning []))) \<and>
   issued (upsert (sample_env False False (lookup_returning []))
             [mk_entity ''S1'' True, mk_entity ''N1'' False,
              mk_entity ''S2'' True, mk_entity ''N2'' False] ()) start_state =
     [UpsertEntity (mk_entity ''N2'' False) () () False,
      UpsertEntity (mk_entity ''N1'' False) () () False,
      UpsertEntity (mk_entity ''S2'' True) () () False,
      UpsertEntity (mk_entity ''S1'' True) () () False]"
  using upsert_sequential_order [of "sample_env False False (lookup_returning [])"
      "[mk_entity ''S1'' True, mk_entity ''N1'' False,
        mk_entity ''S2'' True, mk_entity ''N2'' False]" "()" start_state]
    sample_client_fault_tolerant
  by (simp add: sample_env_def mk_entity_def)

text \<open>
  C2 as stated fails: for the input \<open>[S, N]\<close>, with \<open>S\<close> flagged and \<open>N\<close> not, the
  write calls are for \<open>N\<close> and then for \<open>S\<close>.
\<close>

theorem upsert_search_identifier_not_first:
  "\<not> search_identifier_first
       (upserted_entities
          (issued (upsert (sample_env False False (lookup_returning []))
                     [mk_entity ''S'' True, mk_entity ''N'' False] ()) start_state))"
  by (simp add: sample_defs upsert_def issued_def call_remote_def Let_def
        search_identifier_first_def)

text \<open>
  C5: with the policy \<open>create_missing_related_entities\<close> on, \<open>upsert\<close> issues one
  call, the batched write, carrying the input list as it was given, and returns what
  that call returns; the world is the one that call leaves.
\<close>

theorem upsert_batch:
  assumes "create_missing_related_entities (port_app_config E)"
  shows "issued (upsert E entities ua) s =
       [BatchUpsertEntities entities (get_port_request_options (port_app_config E)) ua False] \<and>
     fst (upsert E entities ua s) =
       fst (batch_upsert_entities (port_client E) entities
              (get_port_request_options (port_app_config E)) ua False (world s)) \<and>
     world (snd (upsert E entities ua s)) =
       snd (batch_upsert_entities (port_client E) entities
              (get_port_request_options (port_app_config E)) ua False (world s))"
  using assms
  by (simp add: upsert_def issuedI call_remote_calls call_remote_fst call_remote_world)

theorem upsert_batch_witness:
  "create_missing_related_entities
     (port_app_config (sample_env True False (lookup_returning []))) \<and>
   issued (upsert (sample_env True False (lookup_returning []))
             [mk_entity ''good'' False, mk_entity ''bad'' False] ()) start_state =
     [BatchUpsertEntities [mk_entity ''good'' False, mk_entity ''bad'' False] () () False] \<and>
   fst (upsert (sample_env True False (lookup_returning []))
          [mk_entity ''good'' False, mk_entity ''bad'' False] () start_state) =
     Inr [mk_entity ''good'' False]"
  using upsert_batch [of "sample_env True False (lookup_returning [])"
      "[mk_entity ''good'' False, mk_entity ''bad'' False]" "()" start_state]
  by (simp add: sample_defs)

subsection \<open>Claims about delete\<close>



subsection \<open>Claims about apply\_diff and delete\_diff\<close>

text \<open>
  C3: \<open>apply_diff\<close> runs \<open>upsert\<close> on the created entities of the diff followed by the
  modified ones, and then the guard, with the references of the deleted entities as
  candidates and the references of the entities \<open>upsert\<close> returned as written as the
  protect list. An entity \<open>upsert\<close> did not return is not in the protect list. The calls
  of \<open>apply_diff\<close> are the calls of that \<open>upsert\<close> followed by the calls of that guard.
\<close>

theorem apply_diff_steps:
  "apply_diff E entities ua s =
     (case upsert E
             (created (get_port_diff E (before entities) (after entities))
              @ modified (get_port_diff E (before entities) (after entities))) ua s of
        (Inl e, s') \<Rightarrow> (Inl e, s')
      | (Inr written, s') \<Rightarrow>
          safe_delete E
            (map from_entity (deleted (get_port_diff E (before entities) (after entities))))
            (map from_entity written) ua s') \<and>
   issued (apply_diff E entities ua) s =
     issued (upsert E
               (created (get_port_diff E (before entities) (after entities))
                @ modified (get_port_diff E (before entities) (after entities))) ua) s
     @ (case upsert E
               (created (get_port_diff E (before entities) (after entities))
                @ modified (get_port_diff E (before entities) (after entities))) ua s of
          (Inl e, s') \<Rightarrow> []
        | (Inr written, s') \<Rightarrow>
            issued (safe_delete E
                      (map from_entity
                         (deleted (get_port_diff E (before entities) (after entities))))
                      (map from_entity written) ua) s')"
proof -
  let ?d = "get_port_diff E (before entities) (after entities)"
  let ?kept = "created ?d @ modified ?d"
  obtain r s1 where up: "upsert E ?kept ua s = (r, s1)" by force
  have eq: "apply_diff E entities ua s =
     (case upsert E ?kept ua s of
        (Inl e, s') \<Rightarrow> (Inl e, s')
      | (Inr written, s') \<Rightarrow>
          safe_delete E (map from_entity (deleted ?d)) (map from_entity written) ua s')"
    by (simp add: apply_diff_unfold)
  have c1: "calls s1 = calls s @ issued (upsert E ?kept ua) s"
    using logs_only_calls[OF upsert_logs, of E ?kept ua s] up by simp
  have "issued (apply_diff E entities ua) s =
     issued (upsert E ?kept ua) s
     @ (case upsert E ?kept ua s of
          (Inl e, s') \<Rightarrow> []
        | (Inr written, s') \<Rightarrow>
            issued (safe_delete E (map from_entity (deleted ?d)) (map from_entity written) ua) s')"
  proof (cases r)
    case (Inl e)
    with up eq have "snd (apply_diff E entities ua s) = s1" by simp
    with c1 have "calls (snd (apply_diff E entities ua s)) =
        calls s @ (issued (upsert E ?kept ua) s @ [])"
      by simp
    then have "issued (apply_diff E entities ua) s = issued (upsert E ?kept ua) s @ []"
      by (rule issuedI)
    with Inl up show ?thesis by simp
  next
    case (Inr written)
    let ?g = "safe_delete E (map from_entity (deleted ?d)) (map from_entity written) ua"
    have c2: "calls (snd (?g s1)) = calls s1 @ issued ?g s1"
      by (rule logs_only_calls) (rule safe_delete_logs)
    from Inr up eq have "snd (apply_diff E entities ua s) = snd (?g s1)" by simp
    with c1 c2 have "calls (snd (apply_diff E entities ua s)) =
        calls s @ (issued (upsert E ?kept ua) s @ issued ?g s1)"
      by simp
    then have "issued (apply_diff E entities ua) s =
        issued (upsert E ?kept ua) s @ issued ?g s1"
      by (rule issuedI)
    with Inr up show ?thesis by simp
  qed
  with eq show ?thesis by (intro conjI)
qed

text \<open>
  C7: when the diff of the references has nothing deleted, \<open>delete_diff\<close> returns the
  state it was given: the world is untouched and no call is logged, neither a lookup nor
  a delete. Otherwise it is the guard run with the deleted references as candidates and
  the created references followed by the modified ones as the protect list.
\<close>

theorem delete_diff_noop_or_guard:
  "(deleted (get_port_ref_diff E (before entities) (after entities)) = [] \<longrightarrow>
      delete_diff E entities ua s = (Inr (), s) \<and>
      issued (delete_diff E entities ua) s = []) \<and>
   (deleted (get_port_ref_diff E (before entities) (after entities)) \<noteq> [] \<longrightarrow>
      delete_diff E entities ua s =
        safe_delete E
          (deleted (get_port_ref_diff E (before entities) (after entities)))
          (created (get_port_ref_diff E (before entities) (after entities))
           @ modified (get_port_ref_diff E (before entities) (after entities))) ua s)"
  by (simp add: delete_diff_def Let_def issued_def)

theorem delete_diff_noop_or_guard_witness:
  "deleted (get_port_ref_diff (sample_env False False (lookup_returning []))
              [mk_ref ''A''] [mk_ref ''A'']) = [] \<and>
   delete_diff (sample_env False False (lookup_returning []))
       \<lparr>before = [mk_ref ''A''], after = [mk_ref ''A'']\<rparr> () start_state =
     (Inr (), start_state) \<and>
   issued (delete_diff (sample_env False False (lookup_returning []))
             \<lparr>before = [mk_ref ''A''], after = [mk_ref ''A'']\<rparr> ()) start_state = [] \<and>
   deleted (get_port_ref_diff (sample_env False False (lookup_returning []))
              [mk_ref ''A'', mk_ref ''B''] [mk_ref ''A'']) = [mk_ref ''B''] \<and>
   delete_diff (sample_env False False (lookup_returning []))
       \<lparr>before = [mk_ref ''A'', mk_ref ''B''], after = [mk_ref ''A'']\<rparr> () start_state =
     safe_delete (sample_env False False (lookup_returning []))
       [mk_ref ''B''] [mk_ref ''A''] () start_state"
proof -
  let ?E = "sample_env False False (lookup_returning [])"
  have d1: "get_port_ref_diff ?E [mk_ref ''A''] [mk_ref ''A''] =
      \<lparr>created = [], modified = [mk_ref ''A''], deleted = []\<rparr>"
    by (simp add: sample_env_def diff_by_identity_def mk_ref_def)
  have d2: "get_port_ref_diff ?E [mk_ref ''A'', mk_ref ''B''] [mk_ref ''A''] =
      \<lparr>created = [], modified = [mk_ref ''A''], deleted = [mk_ref ''B'']\<rparr>"
    by (simp add: sample_env_def diff_by_identity_def mk_ref_def)
  from delete_diff_noop_or_guard
         [of ?E "\<lparr>before = [mk_ref ''A''], after = [mk_ref ''A'']\<rparr>" "()" start_state]
       delete_diff_noop_or_guard
         [of ?E "\<lparr>before = [mk_ref ''A'', mk_ref ''B''], after = [mk_ref ''A'']\<rparr>"
            "()" start_state]
       d1 d2
  show ?thesis by simp
qed

subsection \<open>Fault tolerance\<close>

text \<open>
  C6: every call that \<open>upsert\<close>, \<open>delete\<close>, \<open>apply_diff\<close> and \<open>delete_diff\<close> issue
  to the remote store is made with \<open>should_raise=False\<close>. With a client that honours
  the flag, \<open>upsert\<close> and \<open>delete\<close> return, and an exception that leaves \<open>apply_diff\<close>
  or \<open>delete_diff\<close> was raised by the lookup of the related entities, never by the write
  or the delete of an item. On the sequential path every entity \<open>upsert\<close> returns is one
  that \<open>upsert_entity\<close> returned as written: an item whose write gave nothing is left
  out of the result.
\<close>

theorem applier_calls_are_fault_tolerant:
  "list_all should_raise_unset (issued (upsert E entities ua) s) \<and>
   list_all should_raise_unset (issued (delete E entities_refs ua) s) \<and>
   list_all should_raise_unset (issued (apply_diff E entity_diff ua) s) \<and>
   list_all should_raise_unset (issued (delete_diff E ref_diff ua) s) \<and>
   (fault_tolerant (port_client E) \<longrightarrow>
      \<not> isl (fst (upsert E entities ua s)) \<and>
      fst (delete E entities_refs ua s) = Inr () \<and>
      (fst (apply_diff E entity_diff ua s) = Inl x \<longrightarrow>
         (\<exists>protect w. fst (get_related_entities_refs E protect w) = Inl x)) \<and>
      (fst (delete_diff E ref_diff ua s) = Inl x \<longrightarrow>
         (\<exists>protect w. fst (get_related_entities_refs E protect w) = Inl x))) \<and>
   (\<not> create_missing_related_entities (port_app_config E) \<longrightarrow>
      fst (upsert E entities ua s) = Inr result \<longrightarrow>
      (\<forall>u\<in>set result. \<exists>e w.
         fst (upsert_entity (port_client E) e
                (get_port_request_options (port_app_config E)) ua False w) = Inr (Some u)))"
proof -
  have c1: "list_all should_raise_unset (issued (upsert E entities ua) s)"
    by (rule logs_only_issued) (rule upsert_logs)
  have c2: "list_all should_raise_unset (issued (delete E entities_refs ua) s)"
    by (rule logs_only_issued) (rule delete_logs)
  have c3: "list_all should_raise_unset (issued (apply_diff E entity_diff ua) s)"
    by (rule logs_only_issued) (rule apply_diff_logs)
  have c4: "list_all should_raise_unset (issued (delete_diff E ref_diff ua) s)"
    by (rule logs_only_issued) (rule delete_diff_logs)
  have c5: "fault_tolerant (port_client E) \<longrightarrow>
      \<not> isl (fst (upsert E entities ua s)) \<and>
      fst (delete E entities_refs ua s) = Inr () \<and>
      (fst (apply_diff E entity_diff ua s) = Inl x \<longrightarrow>
         (\<exists>protect w. fst (get_related_entities_refs E protect w) = Inl x)) \<and>
      (fst (delete_diff E ref_diff ua s) = Inl x \<longrightarrow>
         (\<exists>protect w. fst (get_related_entities_refs E protect w) = Inl x))"
  proof (intro impI conjI)
    assume ft: "fault_tolerant (port_client E)"
    show "\<not> isl (fst (upsert E entities ua s))" using ft by (rule upsert_returns)
    show "fst (delete E entities_refs ua s) = Inr ()" using ft by (rule delete_returns)
    show "\<exists>protect w. fst (get_related_entities_refs E protect w) = Inl x"
      if "fst (apply_diff E entity_diff ua s) = Inl x"
      using ft that by (rule apply_diff_raises_only_lookup)
    show "\<exists>protect w. fst (get_related_entities_refs E protect w) = Inl x"
      if "fst (delete_diff E ref_diff ua s) = Inl x"
      using ft that by (rule delete_diff_raises_only_lookup)
  qed
  have c6: "\<not> create_missing_related_entities (port_app_config E) \<longrightarrow>
      fst (upsert E entities ua s) = Inr result \<longrightarrow>
      (\<forall>u\<in>set result. \<exists>e w.
         fst (upsert_entity (port_client E) e
                (get_port_request_options (port_app_config E)) ua False w) = Inr (Some u))"
    by (intro impI) (rule upsert_sequential_results)
  from c1 c2 c3 c4 c5 c6 show ?thesis by (intro conjI)
qed

theorem applier_calls_are_fault_tolerant_witness:
  "fault_tolerant (port_client (sample_env False False lookup_raising)) \<and>
   \<not> create_missing_related_entities (port_app_config (sample_env False False lookup_raising)) \<and>
   list_all should_raise_unset
     (issued (apply_diff (sample_env False False lookup_raising)
        \<lparr>before = [mk_entity ''old'' False],
         after = [mk_entity ''good'' False, mk_entity ''bad'' False]\<rparr> ()) start_state) \<and>
   fst (upsert (sample_env False False lookup_raising)
          [mk_entity ''good'' False, mk_entity ''bad'' False] () start_state) =
     Inr [mk_entity ''good'' False] \<and>
   fst (delete (sample_env False False lookup_raising) [mk_ref ''old''] () start_state) = Inr () \<and>
   fst (apply_diff (sample_env False False lookup_raising)
          \<lparr>before = [mk_entity ''old'' False],
           after = [mk_entity ''good'' False, mk_entity ''bad'' False]\<rparr> () start_state) =
     Inl (Exception ''lookup failed'') \<and>
   fst (delete_diff (sample_env False False lookup_raising)
          \<lparr>before = [mk_ref ''old''], after = [mk_ref ''good'']\<rparr> () start_state) =
     Inl (Exception ''lookup failed'') \<and>
   (\<exists>protect w. fst (get_related_entities_refs (sample_env False False lookup_raising) protect w) =
      Inl (Exception ''lookup failed'')) \<and>
   (\<exists>e w. fst (upsert_entity (port_client (sample_env False False lookup_raising)) e
                (get_port_request_options (port_app_config (sample_env False False lookup_raising)))
                () False w) = Inr (Some (mk_entity ''good'' False)))"
proof -
  let ?E = "sample_env False False lookup_raising"
  let ?d = "\<lparr>before = [mk_entity ''old'' False],
             after = [mk_entity ''good'' False, mk_entity ''bad'' False]\<rparr>"
  let ?rd = "\<lparr>before = [mk_ref ''old''], after = [mk_ref ''good'']\<rparr>"
  let ?es = "[mk_entity ''good'' False, mk_entity ''bad'' False]"
  have ft: "fault_tolerant (port_client ?E)"
    by (simp add: sample_env_def sample_client_fault_tolerant)
  have cm: "\<not> create_missing_related_entities (port_app_config ?E)"
    by (simp add: sample_env_def)
  have up: "fst (upsert ?E ?es () start_state) = Inr [mk_entity ''good'' False]"
    by (simp add: sample_defs upsert_def call_remote_def Let_def)
  have ad: "fst (apply_diff ?E ?d () start_state) = Inl (Exception ''lookup failed'')"
    by (simp add: sample_defs apply_diff_def upsert_def safe_delete_def call_remote_def Let_def
          from_entity_def)
  have dd: "fst (delete_diff ?E ?rd () start_state) = Inl (Exception ''lookup failed'')"
    by (simp add: sample_defs delete_diff_def safe_delete_def call_remote_def Let_def)
  note inst = applier_calls_are_fault_tolerant [of ?E ?es "()" start_state "[mk_ref ''old'']"
      ?d ?rd "Exception ''lookup failed''" "[mk_entity ''good'' False]"]
  from inst ft cm up ad dd show ?thesis by simp
qed

subsection \<open>Claims about the Kafka consumer\<close>




text \<open>
  A signal handled before \<open>running\<close> is set closes the consumer, but the assignment
  \<open>self.running = True\<close> overwrites what the handler did: the loop goes on.
\<close>

lemma early_signal_does_not_stop_loop:
  "start (Some ''org'') [AfterSubscribe] None idle_script None new_consumer =
     (None,
      \<lparr>running = True,
       trace =
         [Subscribe [''org.runs'', ''org.change.log''], ExitingGracefully, Close, SetRunning,
          Poll (Inr None)]\<rparr>)"
  by (simp add: start_def idle_script_def new_consumer_def poll_once_def
        deliver_def exit_gracefully_def emit_def Let_def)

subsection \<open>The guard with no candidate\<close>

text \<open>
  C10: with an empty list of candidates \<open>_safe_delete\<close> returns at once: the state is
  returned as it was, so the world is untouched and no call is logged, neither the
  lookup of the related entities nor a delete.
\<close>

theorem safe_delete_empty_no_call:
  "safe_delete E [] entities_to_protect user_agent_type s = (Inr (), s)"
  by (simp add: safe_delete_def)

end
